theory Spec2Isabelle
  imports Complex_Main "HOL-Library.Word" "HOL-Library.Signed_Division"
begin

section \<open>Sensor rate monitor: data model\<close>

text \<open>
  The program under study is \<^verbatim>\<open>examples/mavlink_direct/sensor_rate_monitor.cpp\<close>.
  Its statistics are two \<^verbatim>\<open>std::map\<close>s keyed by message name, shared between the
  subscription callback and the render loop and guarded by one mutex.

  \<^item> \<^verbatim>\<open>unsigned\<close> is a 32-bit word: \<^verbatim>\<open>++\<close> wraps around.
  \<^item> A \<^verbatim>\<open>steady_clock::time_point\<close> is its tick count, a signed integer number of
    nanoseconds; \<^verbatim>\<open>duration_cast\<close> to a coarser unit and \<^verbatim>\<open>/\<close> on the signed
    counts truncate towards zero (\<open>sdiv\<close>).
  \<^item> \<^verbatim>\<open>double\<close> is modelled by exact reals; a quotient is formed by \<open>double_div\<close>, which
    has no finite result for a zero divisor.
\<close>

type_synonym unsigned = "32 word"
type_synonym time_point = int

definition nanos_per_milli :: int where
  "nanos_per_milli = 1000000"

definition nanos_per_second :: int where
  "nanos_per_second = 1000000000"

definition to_seconds :: "int \<Rightarrow> int" where
  "to_seconds d = d sdiv nanos_per_second"

definition to_milliseconds :: "int \<Rightarrow> int" where
  "to_milliseconds d = d sdiv nanos_per_milli"

definition milliseconds :: "int \<Rightarrow> int" where
  "milliseconds n = n * nanos_per_milli"

definition seconds :: "int \<Rightarrow> int" where
  "seconds n = n * nanos_per_second"

record stats =
  message_counts :: "string \<rightharpoonup> unsigned"
  last_message_time :: "string \<rightharpoonup> time_point"

definition initial_stats :: stats where
  "initial_stats = \<lparr>message_counts = Map.empty, last_message_time = Map.empty\<rparr>"

definition monitored_messages :: "string list" where
  "monitored_messages =
     [''OPTICAL_FLOW'', ''OPTICAL_FLOW_RAD'', ''DISTANCE_SENSOR'', ''HEARTBEAT'']"

text \<open>
  \<^verbatim>\<open>std::map::operator[]\<close>: a reference to the mapped value, inserting a value-initialised
  one (\<open>0\<close>) when the key is absent. \<open>map_index\<close> returns the map after the possible
  insertion together with the value read; \<open>count_of\<close> is the value alone.
\<close>

definition count_of :: "(string \<rightharpoonup> unsigned) \<Rightarrow> string \<Rightarrow> unsigned" where
  "count_of m k = (case m k of None \<Rightarrow> 0 | Some c \<Rightarrow> c)"

definition map_index :: "(string \<rightharpoonup> unsigned) \<Rightarrow> string \<Rightarrow> (string \<rightharpoonup> unsigned) \<times> unsigned" where
  "map_index m k = (case m k of None \<Rightarrow> (m(k \<mapsto> 0), 0) | Some c \<Rightarrow> (m, c))"

text \<open>\<^verbatim>\<open>m[k]++\<close>\<close>

definition map_increment :: "(string \<rightharpoonup> unsigned) \<Rightarrow> string \<Rightarrow> (string \<rightharpoonup> unsigned)" where
  "map_increment m k = (case map_index m k of (m', c) \<Rightarrow> m'(k \<mapsto> c + 1))"

text \<open>\<^verbatim>\<open>std::map::empty()\<close>\<close>

definition map_empty :: "(string \<rightharpoonup> unsigned) \<Rightarrow> bool" where
  "map_empty m \<longleftrightarrow> dom m = {}"

section \<open>The subscription callback (lines 98--114)\<close>

text \<open>The \<^verbatim>\<open>for\<close> loop with \<^verbatim>\<open>break\<close> over the monitored names.\<close>

fun is_monitored_in :: "string list \<Rightarrow> string \<Rightarrow> bool" where
  "is_monitored_in [] message_name = False"
| "is_monitored_in (msg_name # rest) message_name =
     (if message_name = msg_name then True else is_monitored_in rest message_name)"

text \<open>
  The callback body, run under the mutex; \<open>now\<close> is the value of
  \<^verbatim>\<open>steady_clock::now()\<close> read at line 112.
\<close>

definition on_message :: "string \<Rightarrow> time_point \<Rightarrow> stats \<Rightarrow> stats" where
  "on_message message_name now st =
     (if is_monitored_in monitored_messages message_name
      then st\<lparr>message_counts := map_increment (message_counts st) message_name,
              last_message_time := (last_message_time st)(message_name \<mapsto> now)\<rparr>
      else st)"

section \<open>The render loop body (lines 119--170)\<close>

text \<open>\<^verbatim>\<open>std::to_string\<close> on a signed integer: decimal digits, a minus sign when negative.\<close>

fun digits :: "nat \<Rightarrow> string" where
  "digits n =
     (if n < 10 then [''0123456789'' ! n]
      else digits (n div 10) @ [''0123456789'' ! (n mod 10)])"

declare digits.simps [simp del]

definition to_string :: "int \<Rightarrow> string" where
  "to_string i = (if i < 0 then CHR ''-'' # digits (nat (- i)) else digits (nat i))"

text \<open>
  What is written to the console. Lines of plain text are kept as written (\<open>Cout\<close>,
  \<open>Cerr\<close>); the screen-clearing escape sequence, the lines of the table frame, which
  are drawn with box characters, and the flush have a constructor each. A table row
  keeps its four fields: name, total, rate and recency.
\<close>

datatype console =
    Cout string
  | Cerr string
  | ClearScreen
  | FrameTop
  | FrameTitle
  | FrameRuntime int
  | FrameHeaderTop
  | FrameHeader
  | FrameHeaderBottom
  | Row string unsigned "real option" string
  | FrameBottom
  | Flush

definition double_div :: "real \<Rightarrow> real \<Rightarrow> real option" where
  "double_div x y = (if y = 0 then None else Some (x / y))"

text \<open>Line 140.\<close>

definition messages_per_second :: "unsigned \<Rightarrow> int \<Rightarrow> real option" where
  "messages_per_second count elapsed =
     (if elapsed > 0 then double_div (real (unat count)) (real_of_int elapsed) else Some 0)"

text \<open>Lines 143--153: the recency text of one name.\<close>

definition last_seen_text :: "time_point \<Rightarrow> (string \<rightharpoonup> time_point) \<Rightarrow> string \<Rightarrow> string" where
  "last_seen_text current_time lmt msg_name =
     (case lmt msg_name of
        None \<Rightarrow> ''Never''
      | Some t \<Rightarrow>
          (let time_since_last = to_milliseconds (current_time - t)
           in if time_since_last < 1000
              then to_string time_since_last @ '' ms ago''
              else to_string (time_since_last sdiv 1000) @ '' s ago''))"

text \<open>
  Lines 138--160: the loop over the monitored names. Reading the count goes through
  \<^verbatim>\<open>operator[]\<close>, so the map is threaded through the loop.
\<close>

fun render_rows :: "time_point \<Rightarrow> int \<Rightarrow> string list \<Rightarrow> stats \<Rightarrow> stats \<times> console list" where
  "render_rows current_time elapsed [] st = (st, [])"
| "render_rows current_time elapsed (msg_name # rest) st =
     (case map_index (message_counts st) msg_name of
        (mc, count) \<Rightarrow>
          (let row = Row msg_name count (messages_per_second count elapsed)
                       (last_seen_text current_time (last_message_time st) msg_name)
           in case render_rows current_time elapsed rest (st\<lparr>message_counts := mc\<rparr>) of
                (st', rows) \<Rightarrow> (st', row # rows)))"

definition warning_sign :: string where
  "warning_sign = [CHR 0xE2, CHR 0x9A, CHR 0xA0]"

definition warning_lines :: "console list" where
  "warning_lines =
     [Cout (CHR 0x0A # warning_sign @ '' No monitored messages received yet.'' @ [CHR 0x0A]),
      Cout (''  Waiting for: OPTICAL_FLOW, OPTICAL_FLOW_RAD, DISTANCE_SENSOR, HEARTBEAT''
            @ [CHR 0x0A])]"

text \<open>
  Lines 123--170: everything one iteration does while it holds the mutex.
  \<open>current_time\<close> is the clock value read at line 123.
\<close>

definition render_body :: "time_point \<Rightarrow> time_point \<Rightarrow> stats \<Rightarrow> stats \<times> console list" where
  "render_body start_time current_time st =
     (let elapsed = to_seconds (current_time - start_time)
      in case render_rows current_time elapsed monitored_messages st of
           (st', rows) \<Rightarrow>
             (st',
              [ClearScreen, FrameTop, FrameTitle, FrameRuntime elapsed,
               FrameHeaderTop, FrameHeader, FrameHeaderBottom]
              @ rows
              @ [FrameBottom]
              @ (if map_empty (message_counts st') then warning_lines else [])
              @ [Flush]))"

text \<open>
  One iteration as a trace: the sleep, then the \<^verbatim>\<open>lock_guard\<close> taken at line 121 and
  released when the iteration's scope ends, after the flush.
\<close>

datatype event = SleepFor int | Lock | Unlock | Write console

definition render_iteration :: "time_point \<Rightarrow> time_point \<Rightarrow> stats \<Rightarrow> stats \<times> event list" where
  "render_iteration start_time current_time st =
     (case render_body start_time current_time st of
        (st', out) \<Rightarrow> (st', [SleepFor (seconds 1), Lock] @ map Write out @ [Unlock]))"

section \<open>Sessions: deliveries and render ticks interleaved\<close>

text \<open>
  The mutex serialises callback runs and render bodies, so a session's effect on the
  statistics is that of a sequence of steps, each a delivered message (with the clock
  value its callback reads) or a render tick (with the clock value read at line 123).
\<close>

datatype step = Deliver string time_point | Tick time_point

fun apply_step :: "time_point \<Rightarrow> stats \<Rightarrow> step \<Rightarrow> stats" where
  "apply_step start_time st (Deliver message_name now) = on_message message_name now st"
| "apply_step start_time st (Tick current_time) = fst (render_body start_time current_time st)"

definition run :: "time_point \<Rightarrow> step list \<Rightarrow> stats" where
  "run start_time steps = foldl (apply_step start_time) initial_stats steps"

text \<open>How many of the steps deliver a message of the given name.\<close>

definition delivered :: "string \<Rightarrow> step list \<Rightarrow> nat" where
  "delivered name steps = length (filter (\<lambda>s. case s of Deliver n t \<Rightarrow> n = name | Tick t \<Rightarrow> False) steps)"

section \<open>The two threads and the mutex\<close>

text \<open>
  The callback runs on a thread of the message bus, the render loop on the main thread,
  and \<^verbatim>\<open>stats_mutex\<close> is taken by a \<^verbatim>\<open>lock_guard\<close> at the top of the callback
  (line 99) and at line 121 of the loop body; each guard releases the mutex when its
  scope ends (lines 114 and 171). The two threads are interleaved step by step.
\<close>

datatype thread = Renderer | Bus

text \<open>
  Where the render loop is: in its sleep (line 119), at the \<^verbatim>\<open>lock_guard\<close>
  (line 121), or in the body with the mutex held and the given console items still to
  write; with none left, the next step leaves the scope and releases the mutex.
\<close>

datatype render_pc = Sleeping | Locking | Writing "console list"

text \<open>
  Where the bus thread is: between callbacks, inside the callback for a message with the
  mutex held (lines 102--113 still to run), or at the end of the callback's scope.
\<close>

datatype bus_pc = Idle | InCallback string | Releasing

text \<open>
  A configuration: the owner of the mutex, the shared statistics, the two threads, and
  the names of the inbound messages the bus has still to deliver.
\<close>

record config =
  mutex :: "thread option"
  shared :: stats
  renderer :: render_pc
  bus :: bus_pc
  inbox :: "string list"

text \<open>
  What a thread does when it is scheduled: an event, the callback's body on a message,
  nothing because it waits for the mutex, or nothing because no message is pending.
\<close>

datatype attempt = Did event | Handled string time_point | Blocked | NoMessage

definition initial_config :: "string list \<Rightarrow> config" where
  "initial_config msgs =
     \<lparr>mutex = None, shared = initial_stats, renderer = Sleeping, bus = Idle, inbox = msgs\<rparr>"

text \<open>
  One step of the render loop. Taking the mutex is followed, with the mutex held, by
  lines 123--160, which read the clock and the shared maps; the console items are then
  written one by one.
\<close>

definition renderer_step :: "time_point \<Rightarrow> time_point \<Rightarrow> config \<Rightarrow> attempt \<times> config" where
  "renderer_step start_time now c =
     (case renderer c of
        Sleeping \<Rightarrow> (Did (SleepFor (seconds 1)), c\<lparr>renderer := Locking\<rparr>)
      | Locking \<Rightarrow>
          (if mutex c = None
           then (case render_body start_time now (shared c) of
                   (st', out) \<Rightarrow>
                     (Did Lock, c\<lparr>mutex := Some Renderer, shared := st', renderer := Writing out\<rparr>))
           else (Blocked, c))
      | Writing out \<Rightarrow>
          (case out of
             [] \<Rightarrow> (Did Unlock, c\<lparr>mutex := None, renderer := Sleeping\<rparr>)
           | x # rest \<Rightarrow> (Did (Write x), c\<lparr>renderer := Writing rest\<rparr>)))"

text \<open>One step of the bus thread.\<close>

definition bus_step :: "time_point \<Rightarrow> config \<Rightarrow> attempt \<times> config" where
  "bus_step now c =
     (case bus c of
        Idle \<Rightarrow>
          (case inbox c of
             [] \<Rightarrow> (NoMessage, c)
           | message_name # rest \<Rightarrow>
               (if mutex c = None
                then (Did Lock, c\<lparr>mutex := Some Bus, bus := InCallback message_name, inbox := rest\<rparr>)
                else (Blocked, c)))
      | InCallback message_name \<Rightarrow>
          (Handled message_name now,
           c\<lparr>shared := on_message message_name now (shared c), bus := Releasing\<rparr>)
      | Releasing \<Rightarrow> (Did Unlock, c\<lparr>mutex := None, bus := Idle\<rparr>))"

definition thread_step :: "time_point \<Rightarrow> thread \<Rightarrow> time_point \<Rightarrow> config \<Rightarrow> attempt \<times> config" where
  "thread_step start_time th now c =
     (case th of Renderer \<Rightarrow> renderer_step start_time now c | Bus \<Rightarrow> bus_step now c)"

text \<open>
  A schedule names, step by step, the thread that runs and the clock value it would
  read. \<open>execute\<close> gives what each scheduled thread did and the configuration reached.
\<close>

fun execute :: "time_point \<Rightarrow> (thread \<times> time_point) list \<Rightarrow> config \<Rightarrow> (thread \<times> attempt) list \<times> config" where
  "execute start_time [] c = ([], c)"
| "execute start_time ((th, now) # schedule) c =
     (case thread_step start_time th now c of
        (a, c') \<Rightarrow>
          (case execute start_time schedule c' of
             (attempts, c'') \<Rightarrow> ((th, a) # attempts, c'')))"

text \<open>Whether the render loop is between its \<^verbatim>\<open>lock_guard\<close> and the end of its scope.\<close>

fun in_body :: "render_pc \<Rightarrow> bool" where
  "in_body (Writing out) = True"
| "in_body pc = False"

text \<open>
  The mutex is owned by the thread inside its guarded scope, and the two threads are
  never both inside.
\<close>

definition mutex_ok :: "config \<Rightarrow> bool" where
  "mutex_ok c \<longleftrightarrow>
     mutex c = (if in_body (renderer c) then Some Renderer
                else if bus c = Idle then None else Some Bus)
     \<and> \<not> (in_body (renderer c) \<and> bus c \<noteq> Idle)"

section \<open>Session lifecycle (lines 29--94 and 116--177)\<close>

text \<open>
  What the program observes of the outside world. \<open>bin_name\<close> is \<^verbatim>\<open>argv[0]\<close> and
  \<open>args\<close> the arguments after it, so \<^verbatim>\<open>argc\<close> is \<open>1 + length args\<close>. MAVSDK itself is
  not part of the example: \<open>connected\<close> says whether \<^verbatim>\<open>add_any_connection\<close> returned
  \<^verbatim>\<open>ConnectionResult::Success\<close>, \<open>connection_text\<close> is what printing the result writes,
  and \<open>systems_size t\<close> is \<^verbatim>\<open>mavsdk.systems().size()\<close> when asked at time \<open>t\<close>.
  The clock advances only while the program sleeps: \<^verbatim>\<open>sleep_for\<close> blocks for at least
  the requested duration, and \<open>overrun t\<close> is how much longer the sleep begun at \<open>t\<close>
  lasts. \<open>deliveries k\<close> are the messages whose callbacks run before the body of render
  iteration \<open>k\<close>, each with the clock value its callback reads.
\<close>

record env =
  bin_name :: string
  args :: "string list"
  connected :: bool
  connection_text :: string
  start_clock :: time_point
  systems_size :: "time_point \<Rightarrow> nat"
  overrun :: "time_point \<Rightarrow> nat"
  deliveries :: "nat \<Rightarrow> (string \<times> time_point) list"

definition sleep_for :: "env \<Rightarrow> int \<Rightarrow> time_point \<Rightarrow> time_point" where
  "sleep_for e d t = t + d + int (overrun e t)"

definition endl :: string where
  "endl = [CHR 0x0A]"

text \<open>Lines 17--27.\<close>

definition usage :: "string \<Rightarrow> console" where
  "usage name =
     Cerr (''Usage : '' @ name @ '' <connection_url>'' @ endl
       @ ''Connection URL format should be :'' @ endl
       @ '' For TCP server: tcpin://<our_ip>:<port>'' @ endl
       @ '' For TCP client: tcpout://<remote_ip>:<port>'' @ endl
       @ '' For UDP server: udpin://<our_ip>:<port>'' @ endl
       @ '' For UDP client: udpout://<remote_ip>:<port>'' @ endl
       @ '' For Serial : serial://</path/to/serial/dev>:<baudrate>]'' @ endl
       @ ''For example, to connect to a serial device: serial:///dev/ttyUSB0:57600'' @ endl)"

definition timeout_notes :: "event list" where
  "timeout_notes =
     [Write (Cout (''Note: No autopilot system detected after 10 seconds.'' @ endl)),
      Write (Cout (''Continuing to listen for MAVLink messages anyway...'' @ endl))]"

text \<open>
  Lines 49--58: the readiness wait, started at \<open>start_wait\<close> and now at time \<open>t\<close>.
  The result is the time at which the loop is left and the trace of what it did.
\<close>

function wait_for_system :: "env \<Rightarrow> time_point \<Rightarrow> time_point \<Rightarrow> time_point \<times> event list" where
  "wait_for_system e start_wait t =
     (if systems_size e t = 0
      then (let now = sleep_for e (milliseconds 100) t;
                elapsed = to_seconds (now - start_wait)
            in if elapsed > 10
               then (now, SleepFor (milliseconds 100) # timeout_notes)
               else (case wait_for_system e start_wait now of
                       (t', evs) \<Rightarrow> (t', SleepFor (milliseconds 100) # evs)))
      else (t, []))"
  by pat_completeness auto
termination
proof (relation "measure (\<lambda>(e, start_wait, t). nat (seconds 11 + start_wait - t))")
  show "wf (measure (\<lambda>(e, start_wait, t). nat (seconds 11 + start_wait - t)))"
    by simp
next
  fix e :: env and start_wait t now :: int and elapsed :: int
  assume now: "now = sleep_for e (milliseconds 100) t"
    and el: "elapsed = to_seconds (now - start_wait)"
    and le: "\<not> 10 < elapsed"
  have later: "t < now"
    using now by (simp add: sleep_for_def milliseconds_def nanos_per_milli_def)
  have "now - start_wait < seconds 11"
  proof (rule ccontr)
    assume "\<not> now - start_wait < seconds 11"
    then have big: "11000000000 \<le> now - start_wait"
      by (simp add: seconds_def nanos_per_second_def)
    then have "11 \<le> (now - start_wait) div 1000000000"
      by linarith
    moreover have "to_seconds (now - start_wait) = (now - start_wait) div 1000000000"
      using big by (simp add: to_seconds_def nanos_per_second_def signed_divide_int_def)
    ultimately show False
      using el le by simp
  qed
  with later show "((e, start_wait, now), (e, start_wait, t))
      \<in> measure (\<lambda>(e, start_wait, t). nat (seconds 11 + start_wait - t))"
    by simp
qed

declare wait_for_system.simps [simp del]

datatype outcome = Exit int | Monitor time_point

text \<open>
  Lines 31--94 and 116: everything before the render loop. \<open>Monitor t\<close> means the
  subscription is in place and the render loop is entered, with the clock at \<open>t\<close>
  (the value \<^verbatim>\<open>start_time\<close> takes).
\<close>

definition startup :: "env \<Rightarrow> event list \<times> outcome" where
  "startup e =
     (if 1 + length (args e) \<noteq> 2
      then ([Write (usage (bin_name e))], Exit 1)
      else if \<not> connected e
      then ([Write (Cerr (''Connection failed: '' @ connection_text e @ endl))], Exit 1)
      else
        (case wait_for_system e (start_clock e) (start_clock e) of
           (t1, waited) \<Rightarrow>
             (let banner = Write (Cout (endl @ ''Monitoring sensor messages. Press Ctrl+C to exit...''
                                         @ endl @ endl));
                  before = Write (Cout (''Waiting for system to connect...'' @ endl)) # waited
              in if systems_size e t1 > 0
                 then (before @ [Write (Cout (''System connected!'' @ endl)), banner], Monitor t1)
                 else
                   (let listening = before
                          @ [Write (Cout (''Listening for MAVLink messages...'' @ endl)),
                             SleepFor (seconds 2)];
                        t2 = sleep_for e (seconds 2) t1
                    in if systems_size e t2 > 0
                       then (listening @ [banner], Monitor t2)
                       else (listening
                             @ [Write (Cout (''Warning: No system detected. MAVLink messages may not be received.'' @ endl)),
                                Write (Cout (''Make sure the device is sending MAVLink messages.'' @ endl))],
                             Exit 1)))))"

text \<open>
  Lines 118--171: \<^verbatim>\<open>while (true)\<close>. Iteration \<open>k\<close> sleeps, lets the pending callbacks
  run, and renders. The function returns (with \<open>Some\<close>) only if the loop is left.
\<close>

partial_function (option) render_loop ::
  "env \<Rightarrow> time_point \<Rightarrow> nat \<Rightarrow> time_point \<Rightarrow> stats \<Rightarrow> unit option" where
  "render_loop e start_time k t st =
     (let current_time = sleep_for e (seconds 1) t;
          st1 = foldl (\<lambda>s (message_name, now). on_message message_name now s) st (deliveries e k)
      in render_loop e start_time (Suc k) current_time
           (fst (render_iteration start_time current_time st1)))"

text \<open>
  Lines 173--177, after the loop: unsubscribe, report, \<^verbatim>\<open>return 0\<close>. \<open>main\<close> is the
  exit status of the program, \<open>None\<close> when it never exits by itself.
\<close>

definition main :: "env \<Rightarrow> int option" where
  "main e =
     (case startup e of
        (evs, Exit status) \<Rightarrow> Some status
      | (evs, Monitor start_time) \<Rightarrow>
          (case render_loop e start_time 0 start_time initial_stats of
             None \<Rightarrow> None
           | Some u \<Rightarrow> Some 0))"

section \<open>Observations on sessions and on the console\<close>

text \<open>Whether a render tick is among the steps.\<close>

definition ticked :: "step list \<Rightarrow> bool" where
  "ticked steps = list_ex (\<lambda>s. case s of Tick t \<Rightarrow> True | Deliver n t \<Rightarrow> False) steps"

text \<open>The recency and the rate shown for a name: the fields of its first row.\<close>

fun recency_of :: "string \<Rightarrow> console list \<Rightarrow> string option" where
  "recency_of name [] = None"
| "recency_of name (Row msg_name count rate last_seen # rest) =
     (if msg_name = name then Some last_seen else recency_of name rest)"
| "recency_of name (c # rest) = recency_of name rest"

fun rate_of :: "string \<Rightarrow> console list \<Rightarrow> real option option" where
  "rate_of name [] = None"
| "rate_of name (Row msg_name count rate last_seen # rest) =
     (if msg_name = name then Some rate else rate_of name rest)"
| "rate_of name (c # rest) = rate_of name rest"

section \<open>Sample sessions and environments\<close>

text \<open>A session in which one \<^verbatim>\<open>HEARTBEAT\<close> was delivered at time \<open>t\<close>.\<close>

definition seen_at :: "time_point \<Rightarrow> stats" where
  "seen_at t = run 0 [Deliver ''HEARTBEAT'' t]"

text \<open>Statistics with 25 \<^verbatim>\<open>HEARTBEAT\<close> messages counted.\<close>

definition counted :: stats where
  "counted = \<lparr>message_counts = [''HEARTBEAT'' \<mapsto> 25], last_message_time = [''HEARTBEAT'' \<mapsto> seconds 9]\<rparr>"

text \<open>
  \<open>quiet_env\<close>: the connection succeeds, no system is ever discovered and every sleep
  lasts exactly as long as requested. \<open>ready_env\<close>: a system is there from the start and
  one \<^verbatim>\<open>HEARTBEAT\<close> arrives before every render tick.
\<close>

definition quiet_env :: env where
  "quiet_env =
     \<lparr>bin_name = ''sensor_rate_monitor'', args = [''udpin://0.0.0.0:14540''],
      connected = True, connection_text = ''Success'', start_clock = 0,
      systems_size = (\<lambda>t. 0), overrun = (\<lambda>t. 0), deliveries = (\<lambda>k. [])\<rparr>"

definition ready_env :: env where
  "ready_env =
     \<lparr>bin_name = ''sensor_rate_monitor'', args = [''udpin://0.0.0.0:14540''],
      connected = True, connection_text = ''Success'', start_clock = 0,
      systems_size = (\<lambda>t. 1), overrun = (\<lambda>t. 0),
      deliveries = (\<lambda>k. [(''HEARTBEAT'', seconds (int k))])\<rparr>"


section \<open>Facts about the callback, the render body and sessions\<close>

lemma is_monitored_in_set: "is_monitored_in names n \<longleftrightarrow> n \<in> set names"
  by (induction names) auto

lemma count_of_map_increment:
  "count_of (map_increment m k) n = (if n = k then count_of m k + 1 else count_of m n)"
  by (simp add: count_of_def map_increment_def map_index_def split: option.splits)

lemma dom_map_increment: "dom (map_increment m k) = insert k (dom m)"
  by (auto simp: map_increment_def map_index_def split: option.splits)

lemma fst_map_index: "fst (map_index m k) = (case m k of None \<Rightarrow> m(k \<mapsto> 0) | Some c \<Rightarrow> m)"
  by (simp add: map_index_def split: option.splits)

lemma snd_map_index: "snd (map_index m k) = count_of m k"
  by (simp add: map_index_def count_of_def split: option.splits)

lemma fst_render_rows_Cons:
  "fst (render_rows ct el (n # names) st) =
     fst (render_rows ct el names (st\<lparr>message_counts := fst (map_index (message_counts st) n)\<rparr>))"
  by (simp add: case_prod_beta Let_def)

lemma snd_render_rows_Cons:
  "snd (render_rows ct el (n # names) st) =
     Row n (count_of (message_counts st) n)
       (messages_per_second (count_of (message_counts st) n) el)
       (last_seen_text ct (last_message_time st) n)
     # snd (render_rows ct el names (st\<lparr>message_counts := fst (map_index (message_counts st) n)\<rparr>))"
  by (simp add: case_prod_beta Let_def snd_map_index)

lemma count_of_fst_map_index: "count_of (fst (map_index m k)) n = count_of m n"
  by (simp add: fst_map_index count_of_def split: option.splits)

lemma dom_fst_map_index: "dom (fst (map_index m k)) = insert k (dom m)"
  by (auto simp: fst_map_index split: option.splits)

lemma render_rows_last: "last_message_time (fst (render_rows ct el names st)) = last_message_time st"
proof (induction names arbitrary: st)
  case Nil
  show ?case by simp
next
  case (Cons n names)
  show ?case
    unfolding fst_render_rows_Cons by (simp add: Cons.IH)
qed

lemma render_rows_count_of:
  "count_of (message_counts (fst (render_rows ct el names st))) n = count_of (message_counts st) n"
proof (induction names arbitrary: st)
  case Nil
  show ?case by simp
next
  case (Cons k names)
  show ?case
    unfolding fst_render_rows_Cons by (simp add: Cons.IH count_of_fst_map_index)
qed

lemma render_rows_dom:
  "dom (message_counts (fst (render_rows ct el names st))) = dom (message_counts st) \<union> set names"
proof (induction names arbitrary: st)
  case Nil
  show ?case by simp
next
  case (Cons k names)
  show ?case
    unfolding fst_render_rows_Cons by (simp add: Cons.IH dom_fst_map_index)
qed

lemma render_rows_rows:
  "snd (render_rows ct el names st) =
     map (\<lambda>n. Row n (count_of (message_counts st) n)
                 (messages_per_second (count_of (message_counts st) n) el)
                 (last_seen_text ct (last_message_time st) n)) names"
proof (induction names arbitrary: st)
  case Nil
  show ?case by simp
next
  case (Cons k names)
  show ?case
    unfolding snd_render_rows_Cons by (simp add: Cons.IH count_of_fst_map_index)
qed

lemma fst_render_body:
  "fst (render_body s ct st) = fst (render_rows ct (to_seconds (ct - s)) monitored_messages st)"
  by (simp add: render_body_def Let_def case_prod_beta)

lemma render_body_last: "last_message_time (fst (render_body s ct st)) = last_message_time st"
  by (simp add: fst_render_body render_rows_last)

lemma render_body_count_of:
  "count_of (message_counts (fst (render_body s ct st))) n = count_of (message_counts st) n"
  by (simp add: fst_render_body render_rows_count_of)

lemma render_body_dom:
  "dom (message_counts (fst (render_body s ct st))) = dom (message_counts st) \<union> set monitored_messages"
  by (simp add: fst_render_body render_rows_dom)

lemma render_body_out:
  "snd (render_body s ct st) =
     [ClearScreen, FrameTop, FrameTitle, FrameRuntime (to_seconds (ct - s)),
      FrameHeaderTop, FrameHeader, FrameHeaderBottom]
     @ map (\<lambda>n. Row n (count_of (message_counts st) n)
                 (messages_per_second (count_of (message_counts st) n) (to_seconds (ct - s)))
                 (last_seen_text ct (last_message_time st) n)) monitored_messages
     @ [FrameBottom, Flush]"
proof -
  obtain st' rows where r: "render_rows ct (to_seconds (ct - s)) monitored_messages st = (st', rows)"
    by (cases "render_rows ct (to_seconds (ct - s)) monitored_messages st")
  have "dom (message_counts st') = dom (message_counts st) \<union> set monitored_messages"
    using render_rows_dom [of ct "to_seconds (ct - s)" monitored_messages st] r by simp
  then have ne: "\<not> map_empty (message_counts st')"
    by (simp add: map_empty_def monitored_messages_def)
  have rows: "rows = map (\<lambda>n. Row n (count_of (message_counts st) n)
                 (messages_per_second (count_of (message_counts st) n) (to_seconds (ct - s)))
                 (last_seen_text ct (last_message_time st) n)) monitored_messages"
    using render_rows_rows [of ct "to_seconds (ct - s)" monitored_messages st] r by simp
  show ?thesis
    using r ne rows by (simp add: render_body_def Let_def)
qed

lemma run_snoc: "run s (steps @ [x]) = apply_step s (run s steps) x"
  by (simp add: run_def)

lemma run_Nil: "run s [] = initial_stats"
  by (simp add: run_def)

lemma delivered_Nil: "delivered n [] = 0"
  by (simp add: delivered_def)

lemma delivered_snoc:
  "delivered n (steps @ [x]) = delivered n steps + (case x of Deliver m t \<Rightarrow> if m = n then 1 else 0 | Tick t \<Rightarrow> 0)"
  by (simp add: delivered_def split: step.splits)

lemma run_count_of:
  "count_of (message_counts (run s steps)) n =
     (if n \<in> set monitored_messages then of_nat (delivered n steps) else 0)"
proof (induction steps rule: rev_induct)
  case Nil
  show ?case by (simp add: run_Nil delivered_Nil initial_stats_def count_of_def)
next
  case (snoc x steps)
  show ?case
  proof (cases x)
    case (Deliver m t)
    then show ?thesis
      using snoc
      by (auto simp: run_snoc delivered_snoc on_message_def is_monitored_in_set count_of_map_increment)
  next
    case (Tick t)
    then show ?thesis
      using snoc by (simp add: run_snoc delivered_snoc render_body_count_of)
  qed
qed

lemma run_last_seen:
  "last_message_time (run s steps) n \<noteq> None \<longleftrightarrow> n \<in> set monitored_messages \<and> 0 < delivered n steps"
proof (induction steps rule: rev_induct)
  case Nil
  show ?case by (simp add: run_Nil delivered_Nil initial_stats_def)
next
  case (snoc x steps)
  show ?case
  proof (cases x)
    case (Deliver m t)
    then show ?thesis
      using snoc
      by (auto simp: run_snoc delivered_snoc on_message_def is_monitored_in_set)
  next
    case (Tick t)
    then show ?thesis
      using snoc by (simp add: run_snoc delivered_snoc render_body_last)
  qed
qed

lemma run_dom:
  "dom (message_counts (run s steps)) =
     {n \<in> set monitored_messages. 0 < delivered n steps \<or> ticked steps}"
proof (induction steps rule: rev_induct)
  case Nil
  show ?case by (simp add: run_Nil delivered_Nil initial_stats_def ticked_def)
next
  case (snoc x steps)
  show ?case
  proof (cases x)
    case (Deliver m t)
    then show ?thesis
      using snoc
      by (auto simp: run_snoc delivered_snoc on_message_def is_monitored_in_set dom_map_increment ticked_def)
  next
    case (Tick t)
    then show ?thesis
      using snoc by (auto simp: run_snoc delivered_snoc render_body_dom ticked_def)
  qed
qed

lemma recency_of_rows:
  "recency_of n (map (\<lambda>m. Row m (c m) (r m) (txt m)) names @ rest) =
     (if n \<in> set names then Some (txt n) else recency_of n rest)"
  by (induction names) auto

lemma rate_of_rows:
  "rate_of n (map (\<lambda>m. Row m (c m) (r m) (txt m)) names @ rest) =
     (if n \<in> set names then Some (r n) else rate_of n rest)"
  by (induction names) auto

lemma recency_of_render_body:
  "n \<in> set monitored_messages \<Longrightarrow>
   recency_of n (snd (render_body s now st)) = Some (last_seen_text now (last_message_time st) n)"
  by (simp add: render_body_out recency_of_rows)

lemma rate_of_render_body:
  "n \<in> set monitored_messages \<Longrightarrow>
   rate_of n (snd (render_body s now st)) =
     Some (messages_per_second (count_of (message_counts st) n) (to_seconds (now - s)))"
  by (simp add: render_body_out rate_of_rows)

lemma delivered_replicate: "delivered n (replicate k (Deliver n t)) = k"
  by (induction k) (simp_all add: delivered_def)

lemma snd_render_iteration:
  "snd (render_iteration s now st) =
     [SleepFor (seconds 1), Lock] @ map Write (snd (render_body s now st)) @ [Unlock]"
  by (simp add: render_iteration_def case_prod_beta)

lemma fst_render_iteration: "fst (render_iteration s now st) = fst (render_body s now st)"
  by (simp add: render_iteration_def case_prod_beta)

section \<open>Counting deliveries\<close>

text \<open>
  C1 (as amended). In every session, whatever the interleaving of deliveries and render
  ticks, the count of a monitored name is the number of its deliveries modulo \<open>2 ^ 32\<close>
  (the counter is a 32-bit \<^verbatim>\<open>unsigned\<close>), hence exactly that number while it is below
  \<open>2 ^ 32\<close>. A delivery of an unmonitored name leaves the statistics as they are, no
  delivery changes the entry of an unmonitored name, and an unmonitored name has an
  entry in neither map.
\<close>

theorem counts_follow_deliveries:
  "(n \<in> set monitored_messages \<longrightarrow>
      count_of (message_counts (run s steps)) n = of_nat (delivered n steps)
      \<and> unat (count_of (message_counts (run s steps)) n) = delivered n steps mod 2 ^ 32
      \<and> (delivered n steps < 2 ^ 32 \<longrightarrow>
           unat (count_of (message_counts (run s steps)) n) = delivered n steps))
   \<and> (n \<notin> set monitored_messages \<longrightarrow>
      on_message n t st = st
      \<and> message_counts (on_message m t st) n = message_counts st n
      \<and> message_counts (run s steps) n = None
      \<and> last_message_time (run s steps) n = None)"
proof -
  have mon: "count_of (message_counts (run s steps)) n = of_nat (delivered n steps)"
    if "n \<in> set monitored_messages"
    using that by (simp add: run_count_of)
  have wrap: "unat (count_of (message_counts (run s steps)) n) = delivered n steps mod 2 ^ 32"
    if "n \<in> set monitored_messages"
    using mon [OF that] by (simp add: unat_of_nat)
  have drop: "on_message n t st = st" if "n \<notin> set monitored_messages"
    using that by (simp add: on_message_def is_monitored_in_set)
  have keep: "message_counts (on_message m t st) n = message_counts st n"
    if "n \<notin> set monitored_messages"
    using that
    by (auto simp: on_message_def is_monitored_in_set map_increment_def map_index_def
        split: option.splits)
  have absent: "message_counts (run s steps) n = None" if "n \<notin> set monitored_messages"
  proof -
    have "n \<notin> dom (message_counts (run s steps))"
      using that by (simp add: run_dom)
    then show ?thesis by blast
  qed
  have unseen: "last_message_time (run s steps) n = None" if "n \<notin> set monitored_messages"
    using that run_last_seen [of s steps n] by simp
  show ?thesis
    using mon wrap drop keep absent unseen by simp
qed

theorem counts_follow_deliveries_witness:
  "''HEARTBEAT'' \<in> set monitored_messages
   \<and> delivered ''HEARTBEAT'' [Deliver ''HEARTBEAT'' 5, Tick 9, Deliver ''ATTITUDE'' 11, Deliver ''HEARTBEAT'' 12] < 2 ^ 32
   \<and> unat (count_of (message_counts (run 0 [Deliver ''HEARTBEAT'' 5, Tick 9, Deliver ''ATTITUDE'' 11, Deliver ''HEARTBEAT'' 12])) ''HEARTBEAT'') = 2
   \<and> ''ATTITUDE'' \<notin> set monitored_messages
   \<and> message_counts (run 0 [Deliver ''HEARTBEAT'' 5, Tick 9, Deliver ''ATTITUDE'' 11, Deliver ''HEARTBEAT'' 12]) ''ATTITUDE'' = None"
  using counts_follow_deliveries [of "''HEARTBEAT''" 0 "[Deliver ''HEARTBEAT'' 5, Tick 9, Deliver ''ATTITUDE'' 11, Deliver ''HEARTBEAT'' 12]"]
    counts_follow_deliveries [of "''ATTITUDE''" 0 "[Deliver ''HEARTBEAT'' 5, Tick 9, Deliver ''ATTITUDE'' 11, Deliver ''HEARTBEAT'' 12]"]
  by (simp add: monitored_messages_def delivered_def)

text \<open>
  C1, counterexample: after \<open>2 ^ 32\<close> deliveries of \<^verbatim>\<open>HEARTBEAT\<close> the stored count
  is 0, not the number of deliveries.
\<close>

theorem count_wraps_counterexample:
  "unat (count_of (message_counts (run 0 (replicate (2 ^ 32) (Deliver ''HEARTBEAT'' 0)))) ''HEARTBEAT'')
   \<noteq> delivered ''HEARTBEAT'' (replicate (2 ^ 32) (Deliver ''HEARTBEAT'' 0))"
proof -
  have mon: "''HEARTBEAT'' \<in> set monitored_messages"
    by (simp add: monitored_messages_def)
  have d: "delivered ''HEARTBEAT'' (replicate (2 ^ 32) (Deliver ''HEARTBEAT'' 0)) = 2 ^ 32"
    by (rule delivered_replicate)
  have "count_of (message_counts (run 0 (replicate (2 ^ 32) (Deliver ''HEARTBEAT'' 0)))) ''HEARTBEAT''
          = (of_nat (2 ^ 32) :: unsigned)"
    unfolding run_count_of d using mon by simp
  then have "unat (count_of (message_counts (run 0 (replicate (2 ^ 32) (Deliver ''HEARTBEAT'' 0)))) ''HEARTBEAT'') = 0"
    by simp
  then show ?thesis
    unfolding d by simp
qed

section \<open>Count and last-seen time together\<close>

text \<open>
  C10 (as amended). In every session a name has a last-seen time if and only if it is
  monitored and at least one message of that name was delivered. A non-zero count always
  comes with a last-seen time, a name without last-seen time has count 0 (render ticks
  create such entries), and a last-seen time comes with a non-zero count as long as
  fewer than \<open>2 ^ 32\<close> messages of that name were delivered.
\<close>

theorem last_seen_and_count:
  "(last_message_time (run s steps) n \<noteq> None \<longleftrightarrow> n \<in> set monitored_messages \<and> 0 < delivered n steps)
   \<and> (count_of (message_counts (run s steps)) n \<noteq> 0 \<longrightarrow> last_message_time (run s steps) n \<noteq> None)
   \<and> (last_message_time (run s steps) n \<noteq> None \<and> delivered n steps < 2 ^ 32 \<longrightarrow>
        count_of (message_counts (run s steps)) n \<noteq> 0)
   \<and> (last_message_time (run s steps) n = None \<longrightarrow> count_of (message_counts (run s steps)) n = 0)"
proof -
  have seen: "last_message_time (run s steps) n \<noteq> None \<longleftrightarrow> n \<in> set monitored_messages \<and> 0 < delivered n steps"
    by (rule run_last_seen)
  have zero: "count_of (message_counts (run s steps)) n = 0" if "last_message_time (run s steps) n = None"
  proof (cases "n \<in> set monitored_messages")
    case True
    with that seen have "delivered n steps = 0" by simp
    with True show ?thesis by (simp add: run_count_of)
  next
    case False
    then show ?thesis by (simp add: run_count_of)
  qed
  have pos: "count_of (message_counts (run s steps)) n \<noteq> 0"
    if "last_message_time (run s steps) n \<noteq> None" and small: "delivered n steps < 2 ^ 32"
  proof -
    from that seen have mon: "n \<in> set monitored_messages" and d: "0 < delivered n steps"
      by simp_all
    have "unat (count_of (message_counts (run s steps)) n) = delivered n steps"
      using mon small by (simp add: run_count_of unat_of_nat)
    with d show ?thesis by auto
  qed
  show ?thesis
    using seen zero pos by blast
qed

theorem last_seen_and_count_witness:
  "last_message_time (run 0 [Tick 3, Deliver ''DISTANCE_SENSOR'' 4]) ''DISTANCE_SENSOR'' \<noteq> None
   \<and> delivered ''DISTANCE_SENSOR'' [Tick 3, Deliver ''DISTANCE_SENSOR'' 4] < 2 ^ 32
   \<and> count_of (message_counts (run 0 [Tick 3, Deliver ''DISTANCE_SENSOR'' 4])) ''DISTANCE_SENSOR'' \<noteq> 0
   \<and> last_message_time (run 0 [Tick 3, Deliver ''DISTANCE_SENSOR'' 4]) ''OPTICAL_FLOW'' = None
   \<and> count_of (message_counts (run 0 [Tick 3, Deliver ''DISTANCE_SENSOR'' 4])) ''OPTICAL_FLOW'' = 0"
  using last_seen_and_count [of 0 "[Tick 3, Deliver ''DISTANCE_SENSOR'' 4]" "''DISTANCE_SENSOR''"]
    last_seen_and_count [of 0 "[Tick 3, Deliver ''DISTANCE_SENSOR'' 4]" "''OPTICAL_FLOW''"]
  by (simp add: monitored_messages_def delivered_def)

text \<open>
  C10, counterexample: after \<open>2 ^ 32\<close> deliveries of \<^verbatim>\<open>OPTICAL_FLOW\<close> the name has
  a last-seen time and count 0.
\<close>

theorem last_seen_zero_count_counterexample:
  "last_message_time (run 0 (replicate (2 ^ 32) (Deliver ''OPTICAL_FLOW'' 7))) ''OPTICAL_FLOW'' \<noteq> None
   \<and> count_of (message_counts (run 0 (replicate (2 ^ 32) (Deliver ''OPTICAL_FLOW'' 7)))) ''OPTICAL_FLOW'' = 0"
proof -
  have mon: "''OPTICAL_FLOW'' \<in> set monitored_messages"
    by (simp add: monitored_messages_def)
  have d: "delivered ''OPTICAL_FLOW'' (replicate (2 ^ 32) (Deliver ''OPTICAL_FLOW'' 7)) = 2 ^ 32"
    by (rule delivered_replicate)
  have c: "count_of (message_counts (run 0 (replicate (2 ^ 32) (Deliver ''OPTICAL_FLOW'' 7)))) ''OPTICAL_FLOW''
          = (of_nat (2 ^ 32) :: unsigned)"
    unfolding run_count_of d using mon by simp
  have l: "last_message_time (run 0 (replicate (2 ^ 32) (Deliver ''OPTICAL_FLOW'' 7))) ''OPTICAL_FLOW'' \<noteq> None"
    unfolding run_last_seen d using mon by simp
  show ?thesis
    using c l by simp
qed

section \<open>The mutex during a render iteration\<close>

lemma mutex_ok_initial: "mutex_ok (initial_config msgs)"
  by (simp add: mutex_ok_def initial_config_def)

lemma mutex_ok_renderer_step: "mutex_ok c \<Longrightarrow> mutex_ok (snd (renderer_step s now c))"
  by (cases "renderer c")
    (auto simp: mutex_ok_def renderer_step_def case_prod_beta split: list.splits if_splits)

lemma mutex_ok_bus_step: "mutex_ok c \<Longrightarrow> mutex_ok (snd (bus_step now c))"
  by (cases "bus c")
    (auto simp: mutex_ok_def bus_step_def split: list.splits if_splits)

lemma mutex_ok_thread_step: "mutex_ok c \<Longrightarrow> mutex_ok (snd (thread_step s th now c))"
  by (cases th) (simp_all add: thread_step_def mutex_ok_renderer_step mutex_ok_bus_step)

lemma snd_execute_Cons:
  "snd (execute s ((th, now) # schedule) c) = snd (execute s schedule (snd (thread_step s th now c)))"
  by (simp add: case_prod_beta)

lemma fst_execute_Cons:
  "fst (execute s ((th, now) # schedule) c) =
     (th, fst (thread_step s th now c)) # fst (execute s schedule (snd (thread_step s th now c)))"
  by (simp add: case_prod_beta)

lemma mutex_ok_execute: "mutex_ok c \<Longrightarrow> mutex_ok (snd (execute s schedule c))"
proof (induction schedule arbitrary: c)
  case Nil
  then show ?case by simp
next
  case (Cons x schedule)
  obtain th now where x: "x = (th, now)" by (cases x)
  show ?case
    unfolding x snd_execute_Cons
    by (rule Cons.IH) (rule mutex_ok_thread_step [OF Cons.prems])
qed

lemma execute_append:
  "execute s (xs @ ys) c =
     (fst (execute s xs c) @ fst (execute s ys (snd (execute s xs c))),
      snd (execute s ys (snd (execute s xs c))))"
proof (induction xs arbitrary: c)
  case Nil
  show ?case by simp
next
  case (Cons x xs)
  obtain th now where x: "x = (th, now)" by (cases x)
  show ?case
    by (simp add: x case_prod_beta Cons.IH)
qed

text \<open>The renderer running alone while it writes.\<close>

lemma execute_writing:
  "renderer c = Writing out \<Longrightarrow>
   execute s (replicate (length out) (Renderer, now)) c =
     (map (\<lambda>x. (Renderer, Did (Write x))) out, c\<lparr>renderer := Writing []\<rparr>)"
proof (induction out arbitrary: c)
  case Nil
  then show ?case by simp
next
  case (Cons x out)
  have step: "thread_step s Renderer now c = (Did (Write x), c\<lparr>renderer := Writing out\<rparr>)"
    using Cons.prems by (simp add: thread_step_def renderer_step_def)
  have "execute s (replicate (length out) (Renderer, now)) (c\<lparr>renderer := Writing out\<rparr>) =
     (map (\<lambda>x. (Renderer, Did (Write x))) out, c\<lparr>renderer := Writing out, renderer := Writing []\<rparr>)"
    by (rule Cons.IH) simp
  then show ?case
    by (simp add: step)
qed

lemma execute_iteration:
  assumes "renderer c = Sleeping" and "mutex c = None"
  shows "execute s (replicate (length (snd (render_iteration s now (shared c)))) (Renderer, now)) c =
     (map (\<lambda>e. (Renderer, Did e)) (snd (render_iteration s now (shared c))),
      c\<lparr>shared := fst (render_iteration s now (shared c))\<rparr>)"
proof -
  let ?out = "snd (render_body s now (shared c))"
  let ?st = "fst (render_body s now (shared c))"
  let ?c1 = "c\<lparr>renderer := Locking\<rparr>"
  let ?c2 = "c\<lparr>renderer := Locking, mutex := Some Renderer, shared := ?st, renderer := Writing ?out\<rparr>"
  have len: "replicate (length (snd (render_iteration s now (shared c)))) (Renderer, now) =
      [(Renderer, now)] @ [(Renderer, now)] @ replicate (length ?out) (Renderer, now) @ [(Renderer, now)]"
    by (simp add: snd_render_iteration replicate_append_same)
  have s1: "execute s [(Renderer, now)] c = ([(Renderer, Did (SleepFor (seconds 1)))], ?c1)"
    using assms by (simp add: thread_step_def renderer_step_def)
  have s2: "execute s [(Renderer, now)] ?c1 = ([(Renderer, Did Lock)], ?c2)"
    using assms by (simp add: thread_step_def renderer_step_def case_prod_beta)
  have s3: "execute s (replicate (length ?out) (Renderer, now)) ?c2 =
      (map (\<lambda>x. (Renderer, Did (Write x))) ?out, ?c2\<lparr>renderer := Writing []\<rparr>)"
    by (rule execute_writing) simp
  have s4: "execute s [(Renderer, now)] (?c2\<lparr>renderer := Writing []\<rparr>) =
      ([(Renderer, Did Unlock)], c\<lparr>shared := ?st\<rparr>)"
    using assms by (simp add: thread_step_def renderer_step_def)
  show ?thesis
    unfolding len
    by (simp only: execute_append s1 s2 s3 s4 fst_conv snd_conv)
      (simp add: snd_render_iteration fst_render_iteration comp_def)
qed

lemma execute_writing_prefix:
  "renderer c = Writing (xs @ ys) \<Longrightarrow>
   execute s (replicate (length xs) (Renderer, now)) c =
     (map (\<lambda>x. (Renderer, Did (Write x))) xs, c\<lparr>renderer := Writing ys\<rparr>)"
proof (induction xs arbitrary: c)
  case Nil
  then show ?case by simp
next
  case (Cons x xs)
  have step: "thread_step s Renderer now c = (Did (Write x), c\<lparr>renderer := Writing (xs @ ys)\<rparr>)"
    using Cons.prems by (simp add: thread_step_def renderer_step_def)
  have "execute s (replicate (length xs) (Renderer, now)) (c\<lparr>renderer := Writing (xs @ ys)\<rparr>) =
     (map (\<lambda>x. (Renderer, Did (Write x))) xs, c\<lparr>renderer := Writing (xs @ ys), renderer := Writing ys\<rparr>)"
    by (rule Cons.IH) simp
  then show ?case
    by (simp add: step)
qed

lemma execute_into_body:
  assumes "renderer c = Sleeping" and "mutex c = None"
    and "snd (render_body s now (shared c)) = xs @ ys"
  shows "execute s (replicate (2 + length xs) (Renderer, now)) c =
     ([(Renderer, Did (SleepFor (seconds 1))), (Renderer, Did Lock)]
      @ map (\<lambda>x. (Renderer, Did (Write x))) xs,
      c\<lparr>mutex := Some Renderer, shared := fst (render_body s now (shared c)),
        renderer := Writing ys\<rparr>)"
proof -
  let ?st = "fst (render_body s now (shared c))"
  let ?c1 = "c\<lparr>renderer := Locking\<rparr>"
  let ?c2 = "c\<lparr>renderer := Locking, mutex := Some Renderer, shared := ?st, renderer := Writing (xs @ ys)\<rparr>"
  have len: "replicate (2 + length xs) (Renderer, now) =
      [(Renderer, now)] @ [(Renderer, now)] @ replicate (length xs) (Renderer, now)"
    by simp
  have s1: "execute s [(Renderer, now)] c = ([(Renderer, Did (SleepFor (seconds 1)))], ?c1)"
    using assms by (simp add: thread_step_def renderer_step_def)
  have s2: "execute s [(Renderer, now)] ?c1 = ([(Renderer, Did Lock)], ?c2)"
    using assms by (simp add: thread_step_def renderer_step_def case_prod_beta)
  have s3: "execute s (replicate (length xs) (Renderer, now)) ?c2 =
      (map (\<lambda>x. (Renderer, Did (Write x))) xs, ?c2\<lparr>renderer := Writing ys\<rparr>)"
    by (rule execute_writing_prefix) simp
  show ?thesis
    unfolding len
    by (simp only: execute_append s1 s2 s3 fst_conv snd_conv) simp
qed

lemma serialised_thread_step:
  assumes "\<exists>steps. shared c = run s steps"
  shows "\<exists>steps. shared (snd (thread_step s th now c)) = run s steps"
proof -
  from assms obtain steps where st: "shared c = run s steps" by blast
  have tick: "fst (render_body s now (shared c)) = run s (steps @ [Tick now])"
    by (simp add: run_snoc st)
  have del: "on_message n now (shared c) = run s (steps @ [Deliver n now])" for n
    by (simp add: run_snoc st)
  show ?thesis
  proof (cases th)
    case Renderer
    show ?thesis
    proof (cases "renderer c")
      case Sleeping
      with Renderer st show ?thesis
        by (auto simp: thread_step_def renderer_step_def)
    next
      case Locking
      show ?thesis
      proof (cases "mutex c = None")
        case True
        with Renderer Locking have "shared (snd (thread_step s th now c)) = fst (render_body s now (shared c))"
          by (simp add: thread_step_def renderer_step_def case_prod_beta)
        with tick show ?thesis by metis
      next
        case False
        with Renderer Locking st show ?thesis
          by (auto simp: thread_step_def renderer_step_def)
      qed
    next
      case (Writing out)
      with Renderer st show ?thesis
        by (cases out) (auto simp: thread_step_def renderer_step_def)
    qed
  next
    case Bus
    show ?thesis
    proof (cases "bus c")
      case Idle
      with Bus st show ?thesis
        by (cases "inbox c") (auto simp: thread_step_def bus_step_def)
    next
      case (InCallback n)
      with Bus have "shared (snd (thread_step s th now c)) = on_message n now (shared c)"
        by (simp add: thread_step_def bus_step_def)
      with del show ?thesis by metis
    next
      case Releasing
      with Bus st show ?thesis
        by (auto simp: thread_step_def bus_step_def)
    qed
  qed
qed

lemma serialised_execute:
  "\<exists>steps. shared c = run s steps \<Longrightarrow> \<exists>steps. shared (snd (execute s schedule c)) = run s steps"
proof (induction schedule arbitrary: c)
  case Nil
  then show ?case by simp
next
  case (Cons x schedule)
  obtain th now where x: "x = (th, now)" by (cases x)
  show ?case
    unfolding x snd_execute_Cons
    by (rule Cons.IH) (rule serialised_thread_step [OF Cons.prems])
qed

lemma serialised:
  "\<exists>steps. shared (snd (execute s schedule (initial_config msgs))) = run s steps"
proof (rule serialised_execute)
  have "shared (initial_config msgs) = run s []"
    by (simp add: initial_config_def run_Nil)
  then show "\<exists>steps. shared (initial_config msgs) = run s steps" ..
qed

lemma blocked_in_body:
  assumes ok: "mutex_ok c" and body: "in_body (renderer c)"
  shows "bus_step now c = (if inbox c = [] then NoMessage else Blocked, c)"
proof -
  from ok body have "mutex c = Some Renderer" and "bus c = Idle"
    by (auto simp: mutex_ok_def)
  then show ?thesis
    by (simp add: bus_step_def split: list.splits)
qed

lemma free_while_sleeping:
  assumes ok: "mutex_ok c" and sl: "\<not> in_body (renderer c)"
  shows "fst (bus_step now c) \<noteq> Blocked"
proof (cases "bus c")
  case Idle
  with ok sl have "mutex c = None" by (simp add: mutex_ok_def)
  with Idle show ?thesis
    by (simp add: bus_step_def split: list.splits)
next
  case (InCallback n)
  then show ?thesis by (simp add: bus_step_def)
next
  case Releasing
  then show ?thesis by (simp add: bus_step_def)
qed

lemma write_means_in_body:
  "fst (renderer_step s now c) = Did (Write x) \<Longrightarrow> in_body (renderer c)"
  by (cases "renderer c") (auto simp: renderer_step_def case_prod_beta split: if_splits list.splits)

text \<open>
  C2 (as amended). The renderer takes no copy: it reads the two maps in place while it
  holds the mutex, and the entries its reads insert stay in the shared count map. In
  every configuration that an interleaving of the render loop and the bus thread can
  reach: a console write is made only while the renderer owns the mutex and the bus is
  outside its callback; while the renderer is between taking the mutex and leaving its
  scope, a pending message makes the bus wait and the statistics do not change; while
  the renderer sleeps or waits for the mutex itself, the bus is never made to wait. A
  render iteration run from its sleep is the sleep, the lock, every console write up to
  the flush, and only then the unlock. So message ingestion can be blocked for the whole
  of formatting and output, but not during the sleep.
\<close>

theorem callbacks_wait_for_render_body:
  "c = snd (execute s schedule (initial_config msgs)) \<longrightarrow>
     (\<forall>x. fst (renderer_step s now c) = Did (Write x) \<longrightarrow> mutex c = Some Renderer \<and> bus c = Idle)
     \<and> (in_body (renderer c) \<and> inbox c \<noteq> [] \<longrightarrow> bus_step now' c = (Blocked, c))
     \<and> (in_body (renderer c) \<longrightarrow> shared (snd (bus_step now' c)) = shared c)
     \<and> (\<not> in_body (renderer c) \<longrightarrow> fst (bus_step now' c) \<noteq> Blocked)
     \<and> (renderer c = Sleeping \<and> mutex c = None \<longrightarrow>
          execute s (replicate (length (snd (render_iteration s now (shared c)))) (Renderer, now)) c
            = (map (\<lambda>e. (Renderer, Did e)) (snd (render_iteration s now (shared c))),
               c\<lparr>shared := fst (render_iteration s now (shared c))\<rparr>)
          \<and> dom (message_counts (fst (render_iteration s now (shared c))))
              = dom (message_counts (shared c)) \<union> set monitored_messages)"
proof
  assume c: "c = snd (execute s schedule (initial_config msgs))"
  have ok: "mutex_ok c"
    unfolding c by (rule mutex_ok_execute) (rule mutex_ok_initial)
  have w: "mutex c = Some Renderer \<and> bus c = Idle" if "fst (renderer_step s now c) = Did (Write x)" for x
    using write_means_in_body [OF that] ok by (auto simp: mutex_ok_def)
  have b: "bus_step now' c = (Blocked, c)" if "in_body (renderer c)" "inbox c \<noteq> []"
    using blocked_in_body [OF ok that(1), of now'] that(2) by simp
  have u: "shared (snd (bus_step now' c)) = shared c" if "in_body (renderer c)"
    using blocked_in_body [OF ok that, of now'] by simp
  have f: "fst (bus_step now' c) \<noteq> Blocked" if "\<not> in_body (renderer c)"
    by (rule free_while_sleeping [OF ok that])
  have i: "execute s (replicate (length (snd (render_iteration s now (shared c)))) (Renderer, now)) c
            = (map (\<lambda>e. (Renderer, Did e)) (snd (render_iteration s now (shared c))),
               c\<lparr>shared := fst (render_iteration s now (shared c))\<rparr>)"
    if "renderer c = Sleeping" "mutex c = None"
    by (rule execute_iteration [OF that])
  have d: "dom (message_counts (fst (render_iteration s now (shared c))))
              = dom (message_counts (shared c)) \<union> set monitored_messages"
    by (simp add: fst_render_iteration render_body_dom)
  show "(\<forall>x. fst (renderer_step s now c) = Did (Write x) \<longrightarrow> mutex c = Some Renderer \<and> bus c = Idle)
     \<and> (in_body (renderer c) \<and> inbox c \<noteq> [] \<longrightarrow> bus_step now' c = (Blocked, c))
     \<and> (in_body (renderer c) \<longrightarrow> shared (snd (bus_step now' c)) = shared c)
     \<and> (\<not> in_body (renderer c) \<longrightarrow> fst (bus_step now' c) \<noteq> Blocked)
     \<and> (renderer c = Sleeping \<and> mutex c = None \<longrightarrow>
          execute s (replicate (length (snd (render_iteration s now (shared c)))) (Renderer, now)) c
            = (map (\<lambda>e. (Renderer, Did e)) (snd (render_iteration s now (shared c))),
               c\<lparr>shared := fst (render_iteration s now (shared c))\<rparr>)
          \<and> dom (message_counts (fst (render_iteration s now (shared c))))
              = dom (message_counts (shared c)) \<union> set monitored_messages)"
    using w b u f i d by blast
qed

lemma first_body:
  "snd (render_body 0 (seconds 1) initial_stats) =
     [ClearScreen, FrameTop, FrameTitle, FrameRuntime 1, FrameHeaderTop, FrameHeader,
      FrameHeaderBottom,
      Row ''OPTICAL_FLOW'' 0 (Some 0) ''Never'',
      Row ''OPTICAL_FLOW_RAD'' 0 (Some 0) ''Never'',
      Row ''DISTANCE_SENSOR'' 0 (Some 0) ''Never'',
      Row ''HEARTBEAT'' 0 (Some 0) ''Never'',
      FrameBottom] @ [Flush]"
  by (simp add: render_body_out initial_stats_def monitored_messages_def count_of_def
      messages_per_second_def double_div_def last_seen_text_def to_seconds_def seconds_def
      nanos_per_second_def signed_divide_int_def)

lemma before_flush:
  "execute 0 (replicate 14 (Renderer, seconds 1)) (initial_config [''HEARTBEAT'']) =
     ([(Renderer, Did (SleepFor (seconds 1))), (Renderer, Did Lock)]
      @ map (\<lambda>x. (Renderer, Did (Write x)))
          [ClearScreen, FrameTop, FrameTitle, FrameRuntime 1, FrameHeaderTop, FrameHeader,
           FrameHeaderBottom,
           Row ''OPTICAL_FLOW'' 0 (Some 0) ''Never'',
           Row ''OPTICAL_FLOW_RAD'' 0 (Some 0) ''Never'',
           Row ''DISTANCE_SENSOR'' 0 (Some 0) ''Never'',
           Row ''HEARTBEAT'' 0 (Some 0) ''Never'',
           FrameBottom],
      (initial_config [''HEARTBEAT''])
        \<lparr>mutex := Some Renderer,
         shared := fst (render_body 0 (seconds 1) initial_stats),
         renderer := Writing [Flush]\<rparr>)"
proof -
  have sh: "shared (initial_config [''HEARTBEAT'']) = initial_stats"
    by (simp add: initial_config_def)
  have "execute 0 (replicate (2 + length [ClearScreen, FrameTop, FrameTitle, FrameRuntime 1, FrameHeaderTop, FrameHeader,
           FrameHeaderBottom,
           Row ''OPTICAL_FLOW'' 0 (Some 0) ''Never'',
           Row ''OPTICAL_FLOW_RAD'' 0 (Some 0) ''Never'',
           Row ''DISTANCE_SENSOR'' 0 (Some 0) ''Never'',
           Row ''HEARTBEAT'' 0 (Some 0) ''Never'',
           FrameBottom]) (Renderer, seconds 1)) (initial_config [''HEARTBEAT'']) =
     ([(Renderer, Did (SleepFor (seconds 1))), (Renderer, Did Lock)]
      @ map (\<lambda>x. (Renderer, Did (Write x)))
          [ClearScreen, FrameTop, FrameTitle, FrameRuntime 1, FrameHeaderTop, FrameHeader,
           FrameHeaderBottom,
           Row ''OPTICAL_FLOW'' 0 (Some 0) ''Never'',
           Row ''OPTICAL_FLOW_RAD'' 0 (Some 0) ''Never'',
           Row ''DISTANCE_SENSOR'' 0 (Some 0) ''Never'',
           Row ''HEARTBEAT'' 0 (Some 0) ''Never'',
           FrameBottom],
      (initial_config [''HEARTBEAT''])
        \<lparr>mutex := Some Renderer,
         shared := fst (render_body 0 (seconds 1) (shared (initial_config [''HEARTBEAT'']))),
         renderer := Writing [Flush]\<rparr>)"
    by (rule execute_into_body) (simp_all add: initial_config_def first_body)
  then show ?thesis
    by (simp add: sh)
qed

text \<open>
  C2, counterexample: a \<^verbatim>\<open>HEARTBEAT\<close> is pending; the renderer sleeps, takes the mutex
  and writes the table up to the flush. The bus, scheduled then, waits: the renderer
  still owns the mutex with the flush to write, and the message is not recorded.
\<close>

theorem callback_blocked_before_flush_counterexample:
  "last (fst (execute 0 (replicate 14 (Renderer, seconds 1) @ [(Bus, seconds 1)])
            (initial_config [''HEARTBEAT'']))) = (Bus, Blocked)
   \<and> renderer (snd (execute 0 (replicate 14 (Renderer, seconds 1) @ [(Bus, seconds 1)])
            (initial_config [''HEARTBEAT'']))) = Writing [Flush]
   \<and> mutex (snd (execute 0 (replicate 14 (Renderer, seconds 1) @ [(Bus, seconds 1)])
            (initial_config [''HEARTBEAT'']))) = Some Renderer
   \<and> last_message_time (shared (snd (execute 0 (replicate 14 (Renderer, seconds 1) @ [(Bus, seconds 1)])
            (initial_config [''HEARTBEAT''])))) ''HEARTBEAT'' = None"
  unfolding execute_append before_flush
  by (simp add: thread_step_def bus_step_def initial_config_def render_body_last initial_stats_def)

theorem callbacks_wait_for_render_body_witness:
  "renderer (snd (execute 0 (replicate 14 (Renderer, seconds 1)) (initial_config [''HEARTBEAT''])))
     = Writing [Flush]
   \<and> fst (renderer_step 0 (seconds 1)
        (snd (execute 0 (replicate 14 (Renderer, seconds 1)) (initial_config [''HEARTBEAT'']))))
     = Did (Write Flush)
   \<and> mutex (snd (execute 0 (replicate 14 (Renderer, seconds 1)) (initial_config [''HEARTBEAT''])))
     = Some Renderer
   \<and> inbox (snd (execute 0 (replicate 14 (Renderer, seconds 1)) (initial_config [''HEARTBEAT''])))
     = [''HEARTBEAT'']
   \<and> fst (bus_step (seconds 1)
        (snd (execute 0 (replicate 14 (Renderer, seconds 1)) (initial_config [''HEARTBEAT'']))))
     = Blocked
   \<and> renderer (snd (execute 0 [] (initial_config [''HEARTBEAT'']))) = Sleeping
   \<and> mutex (snd (execute 0 [] (initial_config [''HEARTBEAT'']))) = None
   \<and> fst (bus_step (seconds 1) (snd (execute 0 [] (initial_config [''HEARTBEAT''])))) = Did Lock"
proof -
  have a: "renderer (snd (execute 0 (replicate 14 (Renderer, seconds 1)) (initial_config [''HEARTBEAT''])))
     = Writing [Flush]"
    "inbox (snd (execute 0 (replicate 14 (Renderer, seconds 1)) (initial_config [''HEARTBEAT''])))
     = [''HEARTBEAT'']"
    unfolding before_flush by (simp_all add: initial_config_def)
  have w: "fst (renderer_step 0 (seconds 1)
        (snd (execute 0 (replicate 14 (Renderer, seconds 1)) (initial_config [''HEARTBEAT'']))))
     = Did (Write Flush)"
    using a by (simp add: renderer_step_def)
  have z: "renderer (snd (execute 0 [] (initial_config [''HEARTBEAT'']))) = Sleeping"
    "mutex (snd (execute 0 [] (initial_config [''HEARTBEAT'']))) = None"
    "fst (bus_step (seconds 1) (snd (execute 0 [] (initial_config [''HEARTBEAT''])))) = Did Lock"
    by (simp_all add: initial_config_def bus_step_def)
  show ?thesis
    using callbacks_wait_for_render_body
      [of "snd (execute 0 (replicate 14 (Renderer, seconds 1)) (initial_config [''HEARTBEAT'']))"
          0 "replicate 14 (Renderer, seconds 1)" "[''HEARTBEAT'']" "seconds 1" "seconds 1"]
      callbacks_wait_for_render_body
      [of "snd (execute 0 [] (initial_config [''HEARTBEAT'']))"
          0 "[]" "[''HEARTBEAT'']" "seconds 1" "seconds 1"]
      a w z
    by simp
qed

section \<open>Entries created by a render tick\<close>

text \<open>
  C3 (the code at the failing input). A fresh session has an empty count map. One render
  tick, with no message delivered, leaves an entry with count 0 for \<^verbatim>\<open>HEARTBEAT\<close>, and
  indeed for each of the four monitored names: reading through \<^verbatim>\<open>operator[]\<close> at
  line 139 inserts them.
\<close>

theorem tick_creates_entries:
  "delivered ''HEARTBEAT'' [Tick (seconds 1)] = 0
   \<and> map_empty (message_counts (run 0 []))
   \<and> message_counts (run 0 [Tick (seconds 1)]) ''HEARTBEAT'' = Some 0
   \<and> dom (message_counts (run 0 [Tick (seconds 1)])) = set monitored_messages"
  by (simp add: delivered_def run_def render_body_def initial_stats_def monitored_messages_def
      map_index_def map_empty_def Let_def insert_commute)

section \<open>The warning after the table\<close>

text \<open>
  C4 (the code at the failing input). In a fresh session, with no message ever received
  and an empty count map when the tick begins, the first render tick writes the table and
  the flush and no warning line: by the time line 165 asks whether the map is empty the
  loop above it has inserted the four names. Lemma \<open>render_body_out\<close> shows the same
  output shape from every state.
\<close>

theorem warning_never_shown:
  "map_empty (message_counts initial_stats)
   \<and> snd (render_body 0 (seconds 1) initial_stats) =
       [ClearScreen, FrameTop, FrameTitle, FrameRuntime 1, FrameHeaderTop, FrameHeader,
        FrameHeaderBottom,
        Row ''OPTICAL_FLOW'' 0 (Some 0) ''Never'',
        Row ''OPTICAL_FLOW_RAD'' 0 (Some 0) ''Never'',
        Row ''DISTANCE_SENSOR'' 0 (Some 0) ''Never'',
        Row ''HEARTBEAT'' 0 (Some 0) ''Never'',
        FrameBottom, Flush]"
  by (simp add: render_body_def initial_stats_def monitored_messages_def
      map_index_def map_empty_def Let_def messages_per_second_def double_div_def
      last_seen_text_def to_seconds_def seconds_def nanos_per_second_def signed_divide_int_def)

section \<open>The recency column\<close>

text \<open>
  C8. On a render tick the recency shown for a monitored name is \<^verbatim>\<open>Never\<close> when the
  name has no last-seen time. Otherwise, with \<open>d\<close> the time since the last message in
  whole milliseconds, it is \<open>d\<close> followed by \<^verbatim>\<open> ms ago\<close> when \<open>d < 1000\<close>, and
  the truncated quotient of \<open>d\<close> by 1000 followed by \<^verbatim>\<open> s ago\<close> otherwise; 999 gives
  \<^verbatim>\<open>999 ms ago\<close> and 1000 gives \<^verbatim>\<open>1 s ago\<close>.
\<close>

theorem recency_text:
  "n \<in> set monitored_messages \<longrightarrow>
     (last_message_time st n = None \<longrightarrow>
        recency_of n (snd (render_body s now st)) = Some ''Never'')
     \<and> (\<forall>t. last_message_time st n = Some t \<and> to_milliseconds (now - t) < 1000 \<longrightarrow>
          recency_of n (snd (render_body s now st))
            = Some (to_string (to_milliseconds (now - t)) @ '' ms ago''))
     \<and> (\<forall>t. last_message_time st n = Some t \<and> 1000 \<le> to_milliseconds (now - t) \<longrightarrow>
          recency_of n (snd (render_body s now st))
            = Some (to_string (to_milliseconds (now - t) sdiv 1000) @ '' s ago'')
          \<and> to_milliseconds (now - t) sdiv 1000 = to_milliseconds (now - t) div 1000)
     \<and> (\<forall>t. last_message_time st n = Some t \<and> to_milliseconds (now - t) = 999 \<longrightarrow>
          recency_of n (snd (render_body s now st)) = Some ''999 ms ago'')
     \<and> (\<forall>t. last_message_time st n = Some t \<and> to_milliseconds (now - t) = 1000 \<longrightarrow>
          recency_of n (snd (render_body s now st)) = Some ''1 s ago'')"
proof
  assume mon: "n \<in> set monitored_messages"
  have r: "recency_of n (snd (render_body s now st)) = Some (last_seen_text now (last_message_time st) n)"
    by (rule recency_of_render_body [OF mon])
  have d999: "to_string 999 = ''999''"
    by (simp add: to_string_def digits.simps)
  have d1: "to_string 1 = ''1''"
    by (simp add: to_string_def digits.simps)
  have never: "last_message_time st n = None \<longrightarrow>
        recency_of n (snd (render_body s now st)) = Some ''Never''"
    by (simp add: r last_seen_text_def)
  have ms: "\<forall>t. last_message_time st n = Some t \<and> to_milliseconds (now - t) < 1000 \<longrightarrow>
          recency_of n (snd (render_body s now st))
            = Some (to_string (to_milliseconds (now - t)) @ '' ms ago'')"
    by (simp add: r last_seen_text_def)
  have sec: "\<forall>t. last_message_time st n = Some t \<and> 1000 \<le> to_milliseconds (now - t) \<longrightarrow>
          recency_of n (snd (render_body s now st))
            = Some (to_string (to_milliseconds (now - t) sdiv 1000) @ '' s ago'')
          \<and> to_milliseconds (now - t) sdiv 1000 = to_milliseconds (now - t) div 1000"
    by (simp add: r last_seen_text_def signed_divide_int_def)
  have b999: "\<forall>t. last_message_time st n = Some t \<and> to_milliseconds (now - t) = 999 \<longrightarrow>
          recency_of n (snd (render_body s now st)) = Some ''999 ms ago''"
    by (simp add: r last_seen_text_def d999)
  have b1000: "\<forall>t. last_message_time st n = Some t \<and> to_milliseconds (now - t) = 1000 \<longrightarrow>
          recency_of n (snd (render_body s now st)) = Some ''1 s ago''"
    by (simp add: r last_seen_text_def d1 signed_divide_int_def)
  show "(last_message_time st n = None \<longrightarrow>
        recency_of n (snd (render_body s now st)) = Some ''Never'')
     \<and> (\<forall>t. last_message_time st n = Some t \<and> to_milliseconds (now - t) < 1000 \<longrightarrow>
          recency_of n (snd (render_body s now st))
            = Some (to_string (to_milliseconds (now - t)) @ '' ms ago''))
     \<and> (\<forall>t. last_message_time st n = Some t \<and> 1000 \<le> to_milliseconds (now - t) \<longrightarrow>
          recency_of n (snd (render_body s now st))
            = Some (to_string (to_milliseconds (now - t) sdiv 1000) @ '' s ago'')
          \<and> to_milliseconds (now - t) sdiv 1000 = to_milliseconds (now - t) div 1000)
     \<and> (\<forall>t. last_message_time st n = Some t \<and> to_milliseconds (now - t) = 999 \<longrightarrow>
          recency_of n (snd (render_body s now st)) = Some ''999 ms ago'')
     \<and> (\<forall>t. last_message_time st n = Some t \<and> to_milliseconds (now - t) = 1000 \<longrightarrow>
          recency_of n (snd (render_body s now st)) = Some ''1 s ago'')"
    using never ms sec b999 b1000 by blast
qed

theorem recency_text_witness:
  "''HEARTBEAT'' \<in> set monitored_messages
   \<and> ''OPTICAL_FLOW'' \<in> set monitored_messages
   \<and> last_message_time (seen_at 500) ''OPTICAL_FLOW'' = None
   \<and> recency_of ''OPTICAL_FLOW'' (snd (render_body 0 1000000500 (seen_at 500))) = Some ''Never''
   \<and> last_message_time (seen_at 500) ''HEARTBEAT'' = Some 500
   \<and> to_milliseconds (999999999 - 500) = 999
   \<and> recency_of ''HEARTBEAT'' (snd (render_body 0 999999999 (seen_at 500))) = Some ''999 ms ago''
   \<and> to_milliseconds (1000000500 - 500) = 1000
   \<and> recency_of ''HEARTBEAT'' (snd (render_body 0 1000000500 (seen_at 500))) = Some ''1 s ago''
   \<and> to_milliseconds (3725000500 - 500) = 3725
   \<and> recency_of ''HEARTBEAT'' (snd (render_body 0 3725000500 (seen_at 500))) = Some ''3 s ago''"
proof -
  have mon: "''HEARTBEAT'' \<in> set monitored_messages" "''OPTICAL_FLOW'' \<in> set monitored_messages"
    by (simp_all add: monitored_messages_def)
  have st: "last_message_time (seen_at 500) ''OPTICAL_FLOW'' = None"
    "last_message_time (seen_at 500) ''HEARTBEAT'' = Some 500"
    by (simp_all add: seen_at_def run_def on_message_def monitored_messages_def initial_stats_def)
  have ms: "to_milliseconds (999999999 - 500) = 999" "to_milliseconds (1000000500 - 500) = 1000"
    "to_milliseconds (3725000500 - 500) = 3725"
    by (simp_all add: to_milliseconds_def nanos_per_milli_def signed_divide_int_def)
  have s3: "to_string (3725 sdiv 1000) = ''3''" "to_string 999 = ''999''" "to_string 1 = ''1''"
    by (simp_all add: to_string_def digits.simps signed_divide_int_def)
  show ?thesis
    using recency_text [of "''OPTICAL_FLOW''" "seen_at 500" 0 1000000500]
      recency_text [of "''HEARTBEAT''" "seen_at 500" 0 999999999]
      recency_text [of "''HEARTBEAT''" "seen_at 500" 0 1000000500]
      recency_text [of "''HEARTBEAT''" "seen_at 500" 0 3725000500]
      mon st ms s3
    by simp
qed

section \<open>The rate column\<close>

text \<open>
  C9. The rate is always defined: it is the count divided by the elapsed whole seconds
  when these are positive and 0 otherwise, in particular 0 when they are 0, so the
  division never meets a zero divisor. On every render tick this is the rate shown for
  every monitored name.
\<close>

theorem rate_guarded:
  "messages_per_second count elapsed
     = Some (if 0 < elapsed then real (unat count) / real_of_int elapsed else 0)
   \<and> messages_per_second count 0 = Some 0
   \<and> (n \<in> set monitored_messages \<longrightarrow>
        rate_of n (snd (render_body s now st))
          = Some (Some (if 0 < to_seconds (now - s)
                        then real (unat (count_of (message_counts st) n)) / real_of_int (to_seconds (now - s))
                        else 0)))"
proof -
  have g: "messages_per_second c el = Some (if 0 < el then real (unat c) / real_of_int el else 0)"
    for c el
    by (simp add: messages_per_second_def double_div_def)
  show ?thesis
    by (simp add: g rate_of_render_body)
qed

theorem rate_guarded_witness:
  "''HEARTBEAT'' \<in> set monitored_messages
   \<and> to_seconds (seconds 10 - 0) = 10
   \<and> rate_of ''HEARTBEAT'' (snd (render_body 0 (seconds 10) counted)) = Some (Some (5 / 2))
   \<and> to_seconds (milliseconds 900 - 0) = 0
   \<and> rate_of ''HEARTBEAT'' (snd (render_body 0 (milliseconds 900) counted)) = Some (Some 0)"
proof -
  have mon: "''HEARTBEAT'' \<in> set monitored_messages"
    by (simp add: monitored_messages_def)
  have el: "to_seconds (seconds 10 - 0) = 10" "to_seconds (milliseconds 900 - 0) = 0"
    by (simp_all add: to_seconds_def seconds_def milliseconds_def nanos_per_second_def
        nanos_per_milli_def signed_divide_int_def)
  have c: "count_of (message_counts counted) ''HEARTBEAT'' = 25"
    by (simp add: counted_def count_of_def)
  show ?thesis
    using rate_guarded [of _ _ "''HEARTBEAT''" 0 "seconds 10" counted]
      rate_guarded [of _ _ "''HEARTBEAT''" 0 "milliseconds 900" counted]
      mon el c
    by simp
qed

section \<open>Startup, the readiness wait and the render loop\<close>

lemma render_loop_Some_False:
  assumes "render_loop e start_time k t st = Some u"
  shows False
proof (rule render_loop.raw_induct [where P = "\<lambda>e start_time k t st u. False", OF _ assms])
  fix f :: "env \<Rightarrow> int \<Rightarrow> nat \<Rightarrow> int \<Rightarrow> stats \<Rightarrow> unit option"
    and e start_time k t st u
  assume ih: "\<And>e start_time k t st u. f e start_time k t st = Some u \<Longrightarrow> False"
    and step: "(let current_time = sleep_for e (seconds 1) t;
          st1 = foldl (\<lambda>s (message_name, now). on_message message_name now s) st (deliveries e k)
      in f e start_time (Suc k) current_time
           (fst (render_iteration start_time current_time st1))) = Some u"
  from step show False
    unfolding Let_def by (rule ih)
qed

lemma render_loop_None: "render_loop e start_time k t st = None"
  using render_loop_Some_False [of e start_time k t st] by (cases "render_loop e start_time k t st") auto

lemma main_cases:
  "main e = (case snd (startup e) of Exit status \<Rightarrow> Some status | Monitor t \<Rightarrow> None)"
  by (simp add: main_def render_loop_None split: prod.splits outcome.splits)

lemma snd_startup_Exit: "snd (startup e) = Exit status \<Longrightarrow> status = 1"
  by (auto simp: startup_def Let_def split: if_splits prod.splits)

text \<open>
  C5. The render loop never returns, from whatever state it is entered. So the program
  never exits with status 0, and once startup has reached the monitoring state the
  program does not exit by itself at all: the code after the loop is unreachable.
\<close>

theorem render_loop_never_returns:
  "render_loop e start_time k t st = None
   \<and> main e \<noteq> Some 0
   \<and> (\<forall>t0. snd (startup e) = Monitor t0 \<longrightarrow> main e = None)"
proof -
  have "main e \<noteq> Some 0"
  proof (cases "snd (startup e)")
    case (Exit status)
    then show ?thesis
      using snd_startup_Exit [OF Exit] by (simp add: main_cases)
  next
    case (Monitor t0)
    then show ?thesis by (simp add: main_cases)
  qed
  then show ?thesis
    by (simp add: render_loop_None main_cases)
qed

lemma wait_ready: "systems_size e t \<noteq> 0 \<Longrightarrow> wait_for_system e s t = (t, [])"
  by (simp add: wait_for_system.simps)

theorem render_loop_never_returns_witness:
  "snd (startup ready_env) = Monitor 0 \<and> main ready_env = None
   \<and> render_loop ready_env 0 0 0 initial_stats = None"
proof -
  have "snd (startup ready_env) = Monitor 0"
    by (simp add: startup_def wait_ready ready_env_def)
  then show ?thesis
    using render_loop_never_returns [of ready_env 0 0 0 initial_stats] by simp
qed

lemma to_seconds_nonneg: "0 \<le> d \<Longrightarrow> to_seconds d = d div 1000000000"
  by (cases "d = 0") (simp_all add: to_seconds_def nanos_per_second_def signed_divide_int_def)

lemma wait_quiet_step:
  "wait_for_system quiet_env 0 t =
     (if 10 < to_seconds (t + 100000000)
      then (t + 100000000, SleepFor (milliseconds 100) # timeout_notes)
      else (fst (wait_for_system quiet_env 0 (t + 100000000)),
            SleepFor (milliseconds 100) # snd (wait_for_system quiet_env 0 (t + 100000000))))"
  by (subst wait_for_system.simps)
    (simp add: quiet_env_def sleep_for_def milliseconds_def nanos_per_milli_def Let_def
      case_prod_beta)

lemma wait_quiet:
  "n \<le> 109 \<Longrightarrow>
   wait_for_system quiet_env 0 (10900000000 - 100000000 * int n)
     = (11000000000, replicate (Suc n) (SleepFor (milliseconds 100)) @ timeout_notes)"
proof (induction n)
  case 0
  show ?case
    by (subst wait_quiet_step) (simp add: to_seconds_nonneg)
next
  case (Suc n)
  then have ih: "wait_for_system quiet_env 0 (10900000000 - 100000000 * int n)
     = (11000000000, replicate (Suc n) (SleepFor (milliseconds 100)) @ timeout_notes)"
    by simp
  have t: "10900000000 - 100000000 * int (Suc n) + 100000000 = 10900000000 - 100000000 * int n"
    by simp
  have lo: "0 \<le> 10900000000 - 100000000 * int n"
    using Suc.prems by simp
  have "(10900000000 - 100000000 * int n) div 1000000000 \<le> 10"
    by simp
  then have small: "\<not> 10 < to_seconds (10900000000 - 100000000 * int n)"
    using lo by (simp add: to_seconds_nonneg)
  show ?case
    by (subst wait_quiet_step) (simp only: t small ih if_False fst_conv snd_conv replicate_Suc append_Cons)
qed





text \<open>
  When the wait is left with more than 10 whole seconds elapsed, it was left through its
  timeout and the two notes were written. The program then connects if a system is
  there, and otherwise announces that it listens and sleeps 2 seconds; with still no
  system it writes the two warning lines and exits with status 1 without entering the
  render loop.
\<close>

lemma wait_left_late:
  "wait_for_system e s t = (t1, waited) \<Longrightarrow> to_seconds (t - s) \<le> 10 \<Longrightarrow>
   10 < to_seconds (t1 - s) \<Longrightarrow>
     \<exists>k. waited = replicate (Suc k) (SleepFor (milliseconds 100))
           @ [Write (Cout (''Note: No autopilot system detected after 10 seconds.'' @ [CHR 0x0A])),
              Write (Cout (''Continuing to listen for MAVLink messages anyway...'' @ [CHR 0x0A]))]"
proof (induction e s t arbitrary: waited rule: wait_for_system.induct)
  case (1 e s t)
  let ?now = "sleep_for e (milliseconds 100) t"
  have zero: "systems_size e t = 0"
  proof (rule ccontr)
    assume "systems_size e t \<noteq> 0"
    with "1.prems"(1) have "t1 = t"
      by (simp add: wait_for_system.simps [of e s t])
    with "1.prems"(2,3) show False by simp
  qed
  show ?case
  proof (cases "10 < to_seconds (?now - s)")
    case True
    with zero "1.prems" have "waited = SleepFor (milliseconds 100) # timeout_notes"
      by (simp add: wait_for_system.simps [of e s t] Let_def)
    then show ?thesis
      by (auto simp: timeout_notes_def endl_def intro: exI [of _ 0])
  next
    case False
    obtain t' evs where rec: "wait_for_system e s ?now = (t', evs)"
      by (cases "wait_for_system e s ?now")
    with zero False "1.prems" have eq: "t1 = t'" "waited = SleepFor (milliseconds 100) # evs"
      by (simp_all add: wait_for_system.simps [of e s t] Let_def)
    have le: "to_seconds (?now - s) \<le> 10"
      using False by simp
    have "\<exists>k. evs = replicate (Suc k) (SleepFor (milliseconds 100))
           @ [Write (Cout (''Note: No autopilot system detected after 10 seconds.'' @ [CHR 0x0A])),
              Write (Cout (''Continuing to listen for MAVLink messages anyway...'' @ [CHR 0x0A]))]"
      using "1.IH" [OF zero refl refl False _ le] rec eq "1.prems"(3) by simp
    then obtain k where "evs = replicate (Suc k) (SleepFor (milliseconds 100))
           @ [Write (Cout (''Note: No autopilot system detected after 10 seconds.'' @ [CHR 0x0A])),
              Write (Cout (''Continuing to listen for MAVLink messages anyway...'' @ [CHR 0x0A]))]"
      by blast
    then show ?thesis
      using eq by (auto intro: exI [of _ "Suc k"])
  qed
qed

lemma timeout_then_grace:
  assumes ar: "length (args e) = 1" and co: "connected e"
    and w: "wait_for_system e (start_clock e) (start_clock e) = (t1, waited)"
    and late: "10 < to_seconds (t1 - start_clock e)"
  shows "(\<exists>k. waited = replicate (Suc k) (SleepFor (milliseconds 100))
           @ [Write (Cout (''Note: No autopilot system detected after 10 seconds.'' @ [CHR 0x0A])),
              Write (Cout (''Continuing to listen for MAVLink messages anyway...'' @ [CHR 0x0A]))])
     \<and> (0 < systems_size e t1 \<longrightarrow> snd (startup e) = Monitor t1)
     \<and> (systems_size e t1 = 0 \<and> 0 < systems_size e (sleep_for e (seconds 2) t1) \<longrightarrow>
          snd (startup e) = Monitor (sleep_for e (seconds 2) t1))
     \<and> (systems_size e t1 = 0 \<and> systems_size e (sleep_for e (seconds 2) t1) = 0 \<longrightarrow>
          startup e =
            (Write (Cout (''Waiting for system to connect...'' @ [CHR 0x0A])) # waited
             @ [Write (Cout (''Listening for MAVLink messages...'' @ [CHR 0x0A])),
                SleepFor (seconds 2),
                Write (Cout (''Warning: No system detected. MAVLink messages may not be received.'' @ [CHR 0x0A])),
                Write (Cout (''Make sure the device is sending MAVLink messages.'' @ [CHR 0x0A]))],
             Exit 1)
          \<and> main e = Some 1)"
proof -
  have z: "to_seconds (start_clock e - start_clock e) \<le> 10"
    by (simp add: to_seconds_def signed_divide_int_def)
  note logged = wait_left_late [OF w z late]
  have a: "snd (startup e) = Monitor t1" if "0 < systems_size e t1"
    using that w ar co by (simp add: startup_def Let_def)
  have b: "snd (startup e) = Monitor (sleep_for e (seconds 2) t1)"
    if "systems_size e t1 = 0" "0 < systems_size e (sleep_for e (seconds 2) t1)"
    using that w ar co by (simp add: startup_def Let_def)
  have c: "startup e =
            (Write (Cout (''Waiting for system to connect...'' @ [CHR 0x0A])) # waited
             @ [Write (Cout (''Listening for MAVLink messages...'' @ [CHR 0x0A])),
                SleepFor (seconds 2),
                Write (Cout (''Warning: No system detected. MAVLink messages may not be received.'' @ [CHR 0x0A])),
                Write (Cout (''Make sure the device is sending MAVLink messages.'' @ [CHR 0x0A]))],
             Exit 1)"
    if "systems_size e t1 = 0" "systems_size e (sleep_for e (seconds 2) t1) = 0"
    using that w ar co by (simp add: startup_def Let_def endl_def)
  show ?thesis
    using logged a b c by (auto simp: main_cases)
qed

lemma quiet_exits_nonzero: "main quiet_env = Some 1"
proof -
  have w: "wait_for_system quiet_env (start_clock quiet_env) (start_clock quiet_env)
       = (11000000000, replicate 110 (SleepFor (milliseconds 100)) @ timeout_notes)"
    using wait_quiet [of 109] by (simp add: quiet_env_def)
  have q: "length (args quiet_env) = 1" "connected quiet_env" "systems_size quiet_env t = 0" for t
    by (simp_all add: quiet_env_def)
  have late: "10 < to_seconds (11000000000 - start_clock quiet_env)"
    by (simp add: quiet_env_def to_seconds_nonneg)
  show ?thesis
    using timeout_then_grace [OF q(1) q(2) w late] q(3) by simp
qed

text \<open>
  C7 (the code at the failing input). With no system ever present and sleeps of exactly
  100 ms, the readiness wait started at time 0 sleeps 110 times and is left 11 seconds
  after it began; entered 10.1 seconds in, it still sleeps 9 more times.
\<close>

theorem wait_lasts_eleven_seconds:
  "wait_for_system quiet_env 0 0
     = (seconds 11, replicate 110 (SleepFor (milliseconds 100)) @ timeout_notes)
   \<and> wait_for_system quiet_env 0 (milliseconds 10100)
     = (seconds 11, replicate 9 (SleepFor (milliseconds 100)) @ timeout_notes)
   \<and> to_milliseconds (seconds 11 - 0) = 11000"
proof -
  have a: "wait_for_system quiet_env 0 0
     = (seconds 11, replicate 110 (SleepFor (milliseconds 100)) @ timeout_notes)"
    using wait_quiet [of 109] by (simp add: seconds_def nanos_per_second_def)
  have b: "wait_for_system quiet_env 0 (milliseconds 10100)
     = (seconds 11, replicate 9 (SleepFor (milliseconds 100)) @ timeout_notes)"
    using wait_quiet [of 8] by (simp add: seconds_def nanos_per_second_def milliseconds_def nanos_per_milli_def)
  have c: "to_milliseconds (seconds 11 - 0) = 11000"
    by (simp add: to_milliseconds_def seconds_def nanos_per_second_def nanos_per_milli_def signed_divide_int_def)
  show ?thesis
    using a b c by simp
qed

end
